theory Spec2Isabelle
  imports Main "HOL-Library.Sublist" "HOL-Library.AList"
begin

section \<open>Values, exceptions and the world of main.py\<close>

text \<open>
  Python text is modelled as \<^typ>\<open>string\<close>, one \<^typ>\<open>char\<close> per code point below 256
  (on that range \<open>str.isdecimal\<close> holds of the ten ASCII digits only, and \<open>str.strip\<close>
  removes the characters of \<open>is_space\<close> below). Bytes are byte lists.
\<close>

type_synonym bytes = string

text \<open>
  The exceptions that occur. \<open>KeyboardInterrupt\<close> and \<open>CancelledError\<close> derive from
  \<open>BaseException\<close> only; every other one is an \<open>Exception\<close>. \<open>ClientError\<close> stands for
  \<open>aiohttp.ClientError\<close> and its subclasses.
\<close>

datatype exn =
    ClientError
  | KeyboardInterrupt
  | CancelledError
  | IndexError
  | KeyError string
  | TypeError
  | AttributeError
  | FileNotFoundError
  | OtherException string

fun is_Exception :: "exn \<Rightarrow> bool" where
  "is_Exception KeyboardInterrupt = False"
| "is_Exception CancelledError = False"
| "is_Exception _ = True"

text \<open>
  A decoded JSON document or a parsed VDF document (\<open>vdf.loads\<close> gives nested dicts with
  string leaves). A dict is an association list in insertion order, read with
  \<^const>\<open>map_of\<close>.
\<close>

datatype pyval =
    PNone
  | PBool bool
  | PNum int
  | PStr string
  | PList "pyval list"
  | PDict "(string \<times> pyval) list"

text \<open>\<open>key in v\<close> for a string key.\<close>

fun is_substring :: "string \<Rightarrow> string \<Rightarrow> bool" where
  "is_substring k [] = (k = [])"
| "is_substring k (c # cs) = (prefix k (c # cs) \<or> is_substring k cs)"

fun py_contains :: "string \<Rightarrow> pyval \<Rightarrow> exn + bool" where
  "py_contains k (PDict kvs) = Inr (k \<in> set (map fst kvs))"
| "py_contains k (PList xs) = Inr (PStr k \<in> set xs)"
| "py_contains k (PStr s) = Inr (is_substring k s)"
| "py_contains k _ = Inl TypeError"

text \<open>\<open>v[key]\<close> for a string key.\<close>

fun py_getitem :: "pyval \<Rightarrow> string \<Rightarrow> exn + pyval" where
  "py_getitem (PDict kvs) k = (case map_of kvs k of None \<Rightarrow> Inl (KeyError k) | Some v \<Rightarrow> Inr v)"
| "py_getitem _ k = Inl TypeError"

text \<open>\<open>for item in v\<close>: the items visited.\<close>

fun py_iter :: "pyval \<Rightarrow> exn + pyval list" where
  "py_iter (PList xs) = Inr xs"
| "py_iter (PDict kvs) = Inr (map (\<lambda>kv. PStr (fst kv)) kvs)"
| "py_iter (PStr s) = Inr (map (\<lambda>c. PStr [c]) s)"
| "py_iter _ = Inl TypeError"

text \<open>\<open>v.items()\<close>.\<close>

fun py_items :: "pyval \<Rightarrow> exn + (string \<times> pyval) list" where
  "py_items (PDict kvs) = Inr kvs"
| "py_items _ = Inl AttributeError"

text \<open>An HTTP response: its status, what \<open>r.read()\<close> gives and what \<open>r.json()\<close> gives.\<close>

record response =
  status :: nat
  read_body :: "exn + bytes"
  json_body :: "exn + pyval"

text \<open>
  The parts of the world the program consults but does not own:
  \<^item> \<open>network n url\<close>: the outcome of \<open>session.get(url, ssl=False)\<close> when \<open>n\<close> requests
    have been made before it;
  \<^item> \<open>vdf_loads content\<close>: \<open>vdf.loads(content.decode(encoding='utf-8'))\<close>, library code;
  \<^item> \<open>py_repr v\<close>: what an f-string prints for a value that is not a string;
  \<^item> \<open>makedirs_error d\<close>: the exception \<open>os.makedirs(d, exist_ok=True)\<close> raises, if the
    file system refuses the name (a character it does not allow, a file of that name, no
    permission), and \<open>None\<close> when the call succeeds.
\<close>

record env =
  network :: "nat \<Rightarrow> string \<Rightarrow> exn + response"
  vdf_loads :: "bytes \<Rightarrow> exn + pyval"
  py_repr :: "pyval \<Rightarrow> string"
  makedirs_error :: "string \<Rightarrow> exn option"

definition py_str :: "env \<Rightarrow> pyval \<Rightarrow> string" where
  "py_str E v = (case v of PStr s \<Rightarrow> s | _ \<Rightarrow> py_repr E v)"

text \<open>The log calls and prints of the source, one constructor per call site.\<close>

datatype log =
    GetFailStatus string nat
  | GetFailConn string
  | RetryLeft nat string
  | RetryExceeded string
  | ManifestExists string
  | ManifestDownloaded string
  | KeyDownloaded string
  | ProcessFailed string exn
  | SearchRepo string
  | LastUpdated string
  | Stored string string
  | NotInRepo string
  | DownloadFailed string
  | PrintGenerated string
  | PrintDrag string
  | PrintReopen string

datatype filedata = Binary bytes | Text string

datatype event =
    Request string
  | Log log
  | MkDir string
  | Write string string

text \<open>
  The state the program changes: the trace of everything it did, in order, and the file
  system as the entries of each existing directory (name and content, in listing order).
  Tree entries are names of one path component, as the tree listing of the metadata API
  gives them, so \<open>os.path.join(save_dir, path)\<close> is the entry \<open>path\<close> of \<open>save_dir\<close>.
\<close>

record state =
  trace :: "event list"
  fs :: "string \<Rightarrow> (string \<times> filedata) list option"

type_synonym 'a prog = "state \<Rightarrow> (exn + 'a) \<times> state"

definition ret :: "'a \<Rightarrow> 'a prog" where
  "ret x = (\<lambda>s. (Inr x, s))"

definition raise :: "exn \<Rightarrow> 'a prog" where
  "raise e = (\<lambda>s. (Inl e, s))"

definition lift :: "exn + 'a \<Rightarrow> 'a prog" where
  "lift r = (\<lambda>s. (r, s))"

definition seq :: "'a prog \<Rightarrow> ('a \<Rightarrow> 'b prog) \<Rightarrow> 'b prog" where
  "seq m f = (\<lambda>s. case m s of (Inl e, s1) \<Rightarrow> (Inl e, s1) | (Inr x, s1) \<Rightarrow> f x s1)"

definition emit :: "event \<Rightarrow> unit prog" where
  "emit ev = (\<lambda>s. (Inr (), s\<lparr>trace := trace s @ [ev]\<rparr>))"

definition requests :: "state \<Rightarrow> string list" where
  "requests s = concat (map (\<lambda>ev. case ev of Request u \<Rightarrow> [u] | _ \<Rightarrow> []) (trace s))"

text \<open>\<open>session.get(url, ssl=False)\<close>: the request is recorded, the network answers.\<close>

definition session_get :: "env \<Rightarrow> string \<Rightarrow> response prog" where
  "session_get E url = (\<lambda>s.
     (network E (length (requests s)) url, s\<lparr>trace := trace s @ [Request url]\<rparr>))"

text \<open>\<open>os.makedirs(d, exist_ok=True)\<close>, \<open>os.path.exists\<close>, \<open>os.listdir\<close>, writing a file.\<close>

definition makedirs :: "env \<Rightarrow> string \<Rightarrow> unit prog" where
  "makedirs E d = (\<lambda>s.
     case makedirs_error E d of
       Some e \<Rightarrow> (Inl e, s)
     | None \<Rightarrow>
         (Inr (), s\<lparr>trace := trace s @ [MkDir d],
                    fs := (case fs s d of None \<Rightarrow> (fs s)(d \<mapsto> []) | Some es \<Rightarrow> fs s)\<rparr>))"

definition path_exists :: "state \<Rightarrow> string \<Rightarrow> string \<Rightarrow> bool" where
  "path_exists s d name = (case fs s d of None \<Rightarrow> False | Some es \<Rightarrow> name \<in> set (map fst es))"

definition listdir :: "state \<Rightarrow> string \<Rightarrow> exn + string list" where
  "listdir s d = (case fs s d of None \<Rightarrow> Inl FileNotFoundError | Some es \<Rightarrow> Inr (map fst es))"

definition write_file :: "string \<Rightarrow> string \<Rightarrow> filedata \<Rightarrow> unit prog" where
  "write_file d name data = (\<lambda>s.
     case fs s d of
       None \<Rightarrow> (Inl FileNotFoundError, s)
     | Some es \<Rightarrow>
         (Inr (), s\<lparr>trace := trace s @ [Write d name],
                    fs := (fs s)(d \<mapsto> AList.update name data es)\<rparr>))"

section \<open>get: fetching one file through the mirrors\<close>

definition url_list :: "string \<Rightarrow> string \<Rightarrow> string \<Rightarrow> string list" where
  "url_list sha path repo =
     [''https://jsdelivr.pai233.top/gh/'' @ repo @ ''@'' @ sha @ ''/'' @ path,
      ''https://cdn.jsdmirror.com/gh/'' @ repo @ ''@'' @ sha @ ''/'' @ path,
      ''https://raw.gitmirror.com/'' @ repo @ ''/'' @ sha @ ''/'' @ path,
      ''https://raw.dgithub.xyz/'' @ repo @ ''/'' @ sha @ ''/'' @ path,
      ''https://gh.akass.cn/'' @ repo @ ''/'' @ sha @ ''/'' @ path]"

text \<open>
  The body of the \<open>for url in url_list\<close> loop (lines 89 to 96): \<open>Some b\<close> is
  \<open>return await r.read()\<close>, \<open>None\<close> is falling through to the next mirror. Only
  \<open>aiohttp.ClientError\<close> is caught; any other exception leaves the function.
\<close>

definition try_url :: "env \<Rightarrow> string \<Rightarrow> string \<Rightarrow> bytes option prog" where
  "try_url E path url = (\<lambda>s.
     case session_get E url s of
       (Inl e, s1) \<Rightarrow>
         if e = ClientError then seq (emit (Log (GetFailConn path))) (\<lambda>_. ret None) s1
         else (Inl e, s1)
     | (Inr r, s1) \<Rightarrow>
         if status r = 200 then
           (case read_body r of
              Inr b \<Rightarrow> (Inr (Some b), s1)
            | Inl e \<Rightarrow>
                if e = ClientError then seq (emit (Log (GetFailConn path))) (\<lambda>_. ret None) s1
                else (Inl e, s1))
         else seq (emit (Log (GetFailStatus path (status r)))) (\<lambda>_. ret None) s1)"

fun for_url :: "env \<Rightarrow> string \<Rightarrow> string list \<Rightarrow> bytes option prog" where
  "for_url E path [] = ret None"
| "for_url E path (url # urls) =
     seq (try_url E path url)
       (\<lambda>r. case r of Some b \<Rightarrow> ret (Some b) | None \<Rightarrow> for_url E path urls)"

text \<open>The \<open>while retry\<close> loop (lines 87 to 98).\<close>

fun while_retry :: "env \<Rightarrow> string \<Rightarrow> string list \<Rightarrow> nat \<Rightarrow> bytes option prog" where
  "while_retry E path urls 0 = ret None"
| "while_retry E path urls (Suc retry) =
     seq (for_url E path urls)
       (\<lambda>r. case r of
          Some b \<Rightarrow> ret (Some b)
        | None \<Rightarrow> seq (emit (Log (RetryLeft retry path)))
                    (\<lambda>_. while_retry E path urls retry))"

definition get :: "env \<Rightarrow> string \<Rightarrow> string \<Rightarrow> string \<Rightarrow> bytes option prog" where
  "get E sha path repo =
     seq (while_retry E path (url_list sha path repo) 3)
       (\<lambda>r. case r of
          Some b \<Rightarrow> ret (Some b)
        | None \<Rightarrow> seq (emit (Log (RetryExceeded path))) (\<lambda>_. ret None))"

section \<open>get\_manifest: one tree entry\<close>

definition vdf_paths :: "string list" where
  "vdf_paths = [''Key.vdf'', ''key.vdf'', ''config.vdf'']"

text \<open>
  Lines 123 and 124: the loop over \<open>depots_config['depots'].items()\<close>, appending
  \<open>(depot_id, depot_info['DecryptionKey'])\<close>.
\<close>

fun collect_items :: "(string \<times> pyval) list \<Rightarrow> exn + (string \<times> pyval) list" where
  "collect_items [] = Inr []"
| "collect_items ((depot_id, depot_info) # rest) =
     (case py_getitem depot_info ''DecryptionKey'' of
        Inl e \<Rightarrow> Inl e
      | Inr k \<Rightarrow> (case collect_items rest of
                   Inl e \<Rightarrow> Inl e
                 | Inr ds \<Rightarrow> Inr ((depot_id, k) # ds)))"

text \<open>Lines 122 to 124: decoding, parsing and reading the key file.\<close>

definition parse_key_file :: "env \<Rightarrow> bytes \<Rightarrow> exn + (string \<times> pyval) list" where
  "parse_key_file E content =
     (case vdf_loads E content of
        Inl e \<Rightarrow> Inl e
      | Inr depots_config \<Rightarrow>
          (case py_getitem depots_config ''depots'' of
             Inl e \<Rightarrow> Inl e
           | Inr depots \<Rightarrow>
               (case py_items depots of
                  Inl e \<Rightarrow> Inl e
                | Inr items \<Rightarrow> collect_items items)))"

text \<open>
  The \<open>try\<close> block of \<open>get_manifest\<close> (lines 106 to 124) and its final \<open>return\<close>.
  \<open>if content:\<close> holds of bytes that are neither \<open>None\<close> nor empty.
\<close>

definition get_manifest_try ::
  "env \<Rightarrow> string \<Rightarrow> string \<Rightarrow> string \<Rightarrow> string \<Rightarrow> (string \<times> pyval) list prog" where
  "get_manifest_try E sha path save_dir repo = (\<lambda>s.
     if suffix ''.manifest'' path then
       (if path_exists s save_dir path then
          seq (emit (Log (ManifestExists path))) (\<lambda>_. ret []) s
        else
          seq (get E sha path repo)
            (\<lambda>content. case content of
               None \<Rightarrow> ret []
             | Some b \<Rightarrow>
                 if b \<noteq> [] then
                   seq (emit (Log (ManifestDownloaded path)))
                     (\<lambda>_. seq (write_file save_dir path (Binary b)) (\<lambda>_. ret []))
                 else ret []) s)
     else if path \<in> set vdf_paths then
       seq (get E sha path repo)
         (\<lambda>content. case content of
            None \<Rightarrow> ret []
          | Some b \<Rightarrow>
              if b \<noteq> [] then
                seq (emit (Log (KeyDownloaded path))) (\<lambda>_. lift (parse_key_file E b))
              else ret []) s
     else ret [] s)"

text \<open>
  The handlers (lines 125 to 129): a \<open>KeyboardInterrupt\<close> is raised again, any
  \<open>Exception\<close> is logged and raised again, and any other exception is not caught.
\<close>

definition get_manifest ::
  "env \<Rightarrow> string \<Rightarrow> string \<Rightarrow> string \<Rightarrow> string \<Rightarrow> (string \<times> pyval) list prog" where
  "get_manifest E sha path save_dir repo = (\<lambda>s.
     case get_manifest_try E sha path save_dir repo s of
       (Inl e, s1) \<Rightarrow>
         if is_Exception e then seq (emit (Log (ProcessFailed path e))) (\<lambda>_. raise e) s1
         else (Inl e, s1)
     | (Inr ds, s1) \<Rightarrow> (Inr ds, s1))"

section \<open>download\_and\_process: the search over the repositories\<close>

definition repos :: "string list" where
  "repos = [''SteamAutoCracks/ManifestHub'', ''ikun0014/ManifestHub'',
            ''Auiowu/ManifestAutoUpdate'', ''tymolu233/ManifestAutoUpdate-fix'']"

text \<open>\<open>str.strip()\<close>, \<open>str.split(sep)\<close> for a separator of one character, \<open>str.isdecimal\<close>.\<close>

definition is_space :: "char \<Rightarrow> bool" where
  "is_space c = (let n = (of_char c :: nat) in
     (9 \<le> n \<and> n \<le> 13) \<or> (28 \<le> n \<and> n \<le> 32) \<or> n = 133 \<or> n = 160)"

definition strip :: "string \<Rightarrow> string" where
  "strip s = rev (dropWhile is_space (rev (dropWhile is_space s)))"

fun split :: "char \<Rightarrow> string \<Rightarrow> string list" where
  "split sep [] = [[]]"
| "split sep (c # cs) =
     (if c = sep then [] # split sep cs
      else (case split sep cs of [] \<Rightarrow> [[c]] | w # ws \<Rightarrow> (c # w) # ws))"

definition is_decimal_char :: "char \<Rightarrow> bool" where
  "is_decimal_char c = (c \<in> set ''0123456789'')"

definition isdecimal :: "string \<Rightarrow> bool" where
  "isdecimal s = (s \<noteq> [] \<and> list_all is_decimal_char s)"

text \<open>Line 134.\<close>

definition app_id_list :: "string \<Rightarrow> string list" where
  "app_id_list app_id = filter isdecimal (split (CHR ''-'') (strip app_id))"

text \<open>
  The first loop over the tree (lines 156 to 162): its result is \<open>collected_depots\<close>
  when the loop ends, by \<open>break\<close> or by running out of items.
\<close>

fun vdf_loop ::
  "env \<Rightarrow> string \<Rightarrow> string \<Rightarrow> string \<Rightarrow> pyval list \<Rightarrow> (string \<times> pyval) list prog" where
  "vdf_loop E sha save_dir repo [] = ret []"
| "vdf_loop E sha save_dir repo (item # items) =
     seq (lift (py_getitem item ''path''))
       (\<lambda>p. case p of
          PStr path \<Rightarrow>
            if path \<in> set vdf_paths then
              seq (get_manifest E sha path save_dir repo)
                (\<lambda>vdf_result.
                   if vdf_result \<noteq> [] then ret vdf_result
                   else vdf_loop E sha save_dir repo items)
            else vdf_loop E sha save_dir repo items
        | _ \<Rightarrow> vdf_loop E sha save_dir repo items)"

text \<open>
  The second loop (lines 165 to 168); \<open>.endswith\<close> on a path that is not a string is an
  \<open>AttributeError\<close>.
\<close>

fun manifest_loop ::
  "env \<Rightarrow> string \<Rightarrow> string \<Rightarrow> string \<Rightarrow> (string \<times> pyval) list \<Rightarrow> pyval list \<Rightarrow>
   (string \<times> pyval) list prog" where
  "manifest_loop E sha save_dir repo collected_depots [] = ret collected_depots"
| "manifest_loop E sha save_dir repo collected_depots (item # items) =
     seq (lift (py_getitem item ''path''))
       (\<lambda>p. case p of
          PStr path \<Rightarrow>
            if suffix ''.manifest'' path then
              seq (get_manifest E sha path save_dir repo)
                (\<lambda>result. manifest_loop E sha save_dir repo (collected_depots @ result) items)
            else manifest_loop E sha save_dir repo collected_depots items
        | _ \<Rightarrow> raise AttributeError)"

text \<open>
  Lines 152 to 173 for one decoded tree document: \<open>Some\<close> is the \<open>return\<close> of line 173,
  \<open>None\<close> is falling through to line 174.
\<close>

definition process_tree ::
  "env \<Rightarrow> string \<Rightarrow> string \<Rightarrow> string \<Rightarrow> string \<Rightarrow> string \<Rightarrow> pyval \<Rightarrow>
   (string \<times> pyval) list option prog" where
  "process_tree E app_id sha date save_dir repo r2_json =
     seq (lift (py_contains ''tree'' r2_json))
       (\<lambda>has_tree.
          if has_tree then
            seq (lift (py_getitem r2_json ''tree''))
              (\<lambda>tree. seq (lift (py_iter tree))
                 (\<lambda>items. seq (vdf_loop E sha save_dir repo items)
                    (\<lambda>collected_depots.
                       seq (manifest_loop E sha save_dir repo collected_depots items)
                         (\<lambda>collected_depots.
                            if collected_depots \<noteq> [] then
                              seq (emit (Log (LastUpdated date)))
                                (\<lambda>_. seq (emit (Log (Stored app_id repo)))
                                   (\<lambda>_. ret (Some collected_depots)))
                            else ret None))))
          else ret None)"

text \<open>\<open>session.get\<close> of a URL taken from a document: a URL that is not a string is refused.\<close>

definition session_get_val :: "env \<Rightarrow> pyval \<Rightarrow> response prog" where
  "session_get_val E u = (case u of PStr url \<Rightarrow> session_get E url | _ \<Rightarrow> raise TypeError)"

text \<open>Line 142.\<close>

definition branch_url :: "string \<Rightarrow> string \<Rightarrow> string" where
  "branch_url repo app_id = ''https://api.github.com/repos/'' @ repo @ ''/branches/'' @ app_id"

text \<open>The body of the loop over the repositories, lines 141 to 173.\<close>

definition try_repo ::
  "env \<Rightarrow> string \<Rightarrow> string \<Rightarrow> string \<Rightarrow> (string \<times> pyval) list option prog" where
  "try_repo E app_id save_dir repo =
     seq (emit (Log (SearchRepo repo)))
       (\<lambda>_. seq (session_get E (branch_url repo app_id))
       (\<lambda>r. seq (lift (json_body r))
       (\<lambda>r_json. seq (lift (py_contains ''commit'' r_json))
       (\<lambda>has_commit.
          if has_commit then
            seq (lift (py_getitem r_json ''commit''))
              (\<lambda>c. seq (lift (py_getitem c ''sha''))
              (\<lambda>sha. seq (lift (py_getitem c ''commit''))
              (\<lambda>cc. seq (lift (py_getitem cc ''tree''))
              (\<lambda>t. seq (lift (py_getitem t ''url''))
              (\<lambda>tree_url. seq (lift (py_getitem cc ''author''))
              (\<lambda>a. seq (lift (py_getitem a ''date''))
              (\<lambda>date. seq (session_get_val E tree_url)
              (\<lambda>r2. seq (lift (json_body r2))
              (\<lambda>r2_json.
                 process_tree E app_id (py_str E sha) (py_str E date) save_dir repo
                   r2_json)))))))))
          else ret None))))"

fun for_repo ::
  "env \<Rightarrow> string \<Rightarrow> string \<Rightarrow> string list \<Rightarrow> ((string \<times> pyval) list \<times> string) prog" where
  "for_repo E app_id save_dir [] =
     seq (emit (Log (DownloadFailed app_id))) (\<lambda>_. ret ([], save_dir))"
| "for_repo E app_id save_dir (repo # rest) =
     seq (try_repo E app_id save_dir repo)
       (\<lambda>r. case r of
          Some collected_depots \<Rightarrow> ret (collected_depots, save_dir)
        | None \<Rightarrow> seq (emit (Log (NotInRepo repo))) (\<lambda>_. for_repo E app_id save_dir rest))"

text \<open>
  \<open>app_id_list[0]\<close> of an empty list is an \<open>IndexError\<close>, and an exception of
  \<open>os.makedirs\<close> (line 138) has no handler: both leave the function at once.
\<close>

definition download_and_process ::
  "env \<Rightarrow> string \<Rightarrow> string \<Rightarrow> ((string \<times> pyval) list \<times> string) prog" where
  "download_and_process E app_id game_name =
     (case app_id_list app_id of
        [] \<Rightarrow> raise IndexError
      | app_id # _ \<Rightarrow>
          (let save_dir = ''['' @ app_id @ '']'' @ game_name
           in seq (makedirs E save_dir) (\<lambda>_. for_repo E app_id save_dir repos)))"

section \<open>parse\_vdf\_to\_lua and main\<close>

text \<open>\<open>s[i:j]\<close> with Python's rules for negative and out-of-range bounds.\<close>

definition py_slice :: "string \<Rightarrow> int \<Rightarrow> int \<Rightarrow> string" where
  "py_slice s i j =
     (let n = int (length s);
          a = (if i < 0 then max 0 (i + n) else min i n);
          b = (if j < 0 then max 0 (j + n) else min j n)
      in take (nat (b - a)) (drop (nat a) s))"

text \<open>Line 186 and line 188.\<close>

definition manifest_files :: "string \<Rightarrow> string list \<Rightarrow> string list" where
  "manifest_files depot_id listing =
     filter (\<lambda>f. prefix (depot_id @ ''_'') f \<and> suffix ''.manifest'' f) listing"

definition manifest_id :: "string \<Rightarrow> string \<Rightarrow> string" where
  "manifest_id depot_id manifest_file =
     py_slice manifest_file (int (length depot_id) + 1) (- int (length ''.manifest''))"

text \<open>The double quote of the two statement templates, and a line feed.\<close>

definition dquote :: string where
  "dquote = [CHR 0x22]"

definition newline :: string where
  "newline = [CHR 0x0A]"

text \<open>The inner loop (lines 187 to 189) and the outer loop (lines 183 to 189).\<close>

fun for_manifest_file :: "string \<Rightarrow> string list \<Rightarrow> string list \<Rightarrow> string list" where
  "for_manifest_file depot_id [] lua_lines = lua_lines"
| "for_manifest_file depot_id (manifest_file # rest) lua_lines =
     for_manifest_file depot_id rest
       (lua_lines @
        [''setManifestid('' @ depot_id @ '','' @ dquote @ manifest_id depot_id manifest_file @
         dquote @ '',0)''])"

fun for_depot ::
  "env \<Rightarrow> state \<Rightarrow> string \<Rightarrow> (string \<times> pyval) list \<Rightarrow> string list \<Rightarrow> exn + string list" where
  "for_depot E s save_dir [] lua_lines = Inr lua_lines"
| "for_depot E s save_dir ((depot_id, decryption_key) # rest) lua_lines =
     (case listdir s save_dir of
        Inl e \<Rightarrow> Inl e
      | Inr listing \<Rightarrow>
          for_depot E s save_dir rest
            (for_manifest_file depot_id (manifest_files depot_id listing)
               (lua_lines @
                [''addappid('' @ depot_id @ '',1,'' @ dquote @ py_str E decryption_key @ dquote @
                 '')''])))"

text \<open>\<open>sep.join(xs)\<close>.\<close>

fun join :: "string \<Rightarrow> string list \<Rightarrow> string" where
  "join sep [] = []"
| "join sep [x] = x"
| "join sep (x # y # ys) = x @ sep @ join sep (y # ys)"

definition parse_vdf_to_lua ::
  "env \<Rightarrow> (string \<times> pyval) list \<Rightarrow> string \<Rightarrow> string \<Rightarrow> state \<Rightarrow> exn + string" where
  "parse_vdf_to_lua E depot_info appid save_dir s =
     (case for_depot E s save_dir depot_info [''addappid('' @ appid @ '')''] of
        Inl e \<Rightarrow> Inl e
      | Inr lua_lines \<Rightarrow> Inr (join newline lua_lines))"

text \<open>
  Lines 209 to 221 of \<open>main\<close>, from the identifier and the display name that the prompt
  and the name lookup (lines 194 to 207) hand over.
\<close>

definition main :: "env \<Rightarrow> string \<Rightarrow> string \<Rightarrow> unit prog" where
  "main E appid game_name =
     seq (download_and_process E appid game_name)
       (\<lambda>(collected_depots, save_dir).
          if collected_depots \<noteq> [] then
            seq (\<lambda>s. (parse_vdf_to_lua E collected_depots appid save_dir s, s))
              (\<lambda>lua_script. seq (write_file save_dir (appid @ ''.lua'') (Text lua_script))
              (\<lambda>_. seq (emit (Log (PrintGenerated (if game_name \<noteq> [] then game_name else appid))))
              (\<lambda>_. seq (emit (Log (PrintDrag save_dir)))
              (\<lambda>_. emit (Log (PrintReopen (if game_name \<noteq> [] then game_name else appid)))))))
          else ret ())"

text \<open>The manifest ids that lines 186 to 188 find for one depot in a listing.\<close>

definition manifest_ids :: "string \<Rightarrow> string list \<Rightarrow> string list" where
  "manifest_ids depot_id listing = map (manifest_id depot_id) (manifest_files depot_id listing)"

text \<open>
  A mirror fails when the request or the read raises \<open>aiohttp.ClientError\<close> (a transport
  error) or the status is not 200.
\<close>

definition mirror_fails :: "exn + response \<Rightarrow> bool" where
  "mirror_fails outcome =
     (case outcome of
        Inl e \<Rightarrow> e = ClientError
      | Inr r \<Rightarrow> status r \<noteq> 200 \<or> read_body r = Inl ClientError)"

text \<open>
  The units of the retry budget used so far: each \<open>retry -= 1\<close> (line 97) is followed by
  the warning of line 98, and nothing else logs it.
\<close>

definition retries_used :: "state \<Rightarrow> nat" where
  "retries_used s = length (filter (\<lambda>ev. case ev of Log (RetryLeft n p) \<Rightarrow> True | _ \<Rightarrow> False) (trace s))"

section \<open>Concrete worlds for the examples\<close>

text \<open>A mirror's answer with a status and a body, and a metadata answer with a document.\<close>

definition status_response :: "nat \<Rightarrow> bytes \<Rightarrow> response" where
  "status_response n b = \<lparr>status = n, read_body = Inr b, json_body = Inl ClientError\<rparr>"

definition json_response :: "pyval \<Rightarrow> response" where
  "json_response j = \<lparr>status = 200, read_body = Inr [], json_body = Inr j\<rparr>"

text \<open>The state before a run: nothing done, no directory.\<close>

definition state0 :: state where
  "state0 = \<lparr>trace = [], fs = (\<lambda>d. None)\<rparr>"

text \<open>A world where every request is answered 404.\<close>

definition env_down :: env where
  "env_down = \<lparr>network = (\<lambda>n url. Inr (status_response 404 [])),
                vdf_loads = (\<lambda>b. Inl (OtherException ''SyntaxError'')),
                py_repr = (\<lambda>v. []),
      makedirs_error = (\<lambda>d. None)\<rparr>"

text \<open>A world where the first request is answered 404 and every later one 200.\<close>

definition env_second :: env where
  "env_second = \<lparr>network = (\<lambda>n url. if n = 0 then Inr (status_response 404 [])
                                      else Inr (status_response 200 ''data'')),
                  vdf_loads = (\<lambda>b. Inl (OtherException ''SyntaxError'')),
                  py_repr = (\<lambda>v. []),
      makedirs_error = (\<lambda>d. None)\<rparr>"

text \<open>Two parsed key files: one with two depots, one without the \<open>depots\<close> section.\<close>

definition doc_two_depots :: pyval where
  "doc_two_depots =
     PDict [(''depots'', PDict [(''10'', PDict [(''DecryptionKey'', PStr ''AA'')]),
                                (''20'', PDict [(''DecryptionKey'', PStr ''BB'')])])]"

definition doc_no_depots :: pyval where
  "doc_no_depots = PDict [(''other'', PDict [])]"

text \<open>The documents of the metadata API: a branch, a tree of the given paths, no branch.\<close>

definition branch_doc :: pyval where
  "branch_doc =
     PDict [(''commit'',
       PDict [(''sha'', PStr ''abc''),
              (''commit'', PDict [(''tree'', PDict [(''url'', PStr ''https://api.github.com/t/abc'')]),
                                  (''author'', PDict [(''date'', PStr ''2024-01-01'')])])])]"

definition tree_doc :: "string list \<Rightarrow> pyval" where
  "tree_doc paths = PDict [(''tree'', PList (map (\<lambda>p. PDict [(''path'', PStr p)]) paths))]"

definition not_found_doc :: pyval where
  "not_found_doc = PDict [(''message'', PStr ''Branch not found'')]"

text \<open>
  A world where the first repository has the branch, its tree holds a key file and a
  manifest, every mirror answers 200, and the key file read \<open>good\<close> parses to the two
  depots while any other parses to a document without the \<open>depots\<close> section.
\<close>

definition env_key :: "bytes \<Rightarrow> env" where
  "env_key body =
     \<lparr>network = (\<lambda>n url.
         if n = 0 then Inr (json_response branch_doc)
         else if n = 1 then Inr (json_response (tree_doc [''Key.vdf'', ''10_111.manifest'']))
         else Inr (status_response 200 body)),
      vdf_loads = (\<lambda>b. if b = ''good'' then Inr doc_two_depots else Inr doc_no_depots),
      py_repr = (\<lambda>v. []),
      makedirs_error = (\<lambda>d. None)\<rparr>"

text \<open>A world where no repository has the branch.\<close>

definition env_not_found :: env where
  "env_not_found = \<lparr>network = (\<lambda>n url. Inr (json_response not_found_doc)),
                     vdf_loads = (\<lambda>b. Inl (OtherException ''SyntaxError'')),
                     py_repr = (\<lambda>v. []),
      makedirs_error = (\<lambda>d. None)\<rparr>"


text \<open>
  A world where the first repository has the branch but its tree holds neither a key file
  nor a manifest, and no other repository has the branch.
\<close>

definition env_empty_tree :: env where
  "env_empty_tree =
     \<lparr>network = (\<lambda>n url.
         if n = 0 then Inr (json_response branch_doc)
         else if n = 1 then Inr (json_response (tree_doc [''README.md'']))
         else Inr (json_response not_found_doc)),
      vdf_loads = (\<lambda>b. Inl (OtherException ''SyntaxError'')),
      py_repr = (\<lambda>v. []),
      makedirs_error = (\<lambda>d. None)\<rparr>"






section \<open>What a run never undoes\<close>

text \<open>
  \<open>grows s s'\<close>: the trace of \<open>s'\<close> continues that of \<open>s\<close>, and every directory and
  every file of \<open>s\<close> is still there in \<open>s'\<close>. A program is \<open>steady\<close> when every run of it
  grows the state, whatever it returns or raises.
\<close>

definition grows :: "state \<Rightarrow> state \<Rightarrow> bool" where
  "grows s s' =
     (prefix (trace s) (trace s')
      \<and> (\<forall>d. fs s d \<noteq> None \<longrightarrow> fs s' d \<noteq> None)
      \<and> (\<forall>d n. path_exists s d n \<longrightarrow> path_exists s' d n))"

definition steady :: "'a prog \<Rightarrow> bool" where
  "steady m = (\<forall>s. grows s (snd (m s)))"

section \<open>Normalising the identifier\<close>

lemma split_no_sep: "sep \<notin> set g \<Longrightarrow> split sep g = [g]"
  by (induction g) auto

lemma split_append_sep: "sep \<notin> set g \<Longrightarrow> split sep (g @ sep # rest) = g # split sep rest"
  by (induction g) auto

lemma split_join:
  "segs \<noteq> [] \<Longrightarrow> \<forall>g\<in>set segs. sep \<notin> set g \<Longrightarrow> split sep (join [sep] segs) = segs"
proof (induction "[sep]" segs rule: join.induct)
  case 1
  then show ?case by simp
next
  case (2 x)
  then show ?case by (simp add: split_no_sep)
next
  case (3 x y ys)
  then show ?case by (simp add: split_append_sep)
qed


lemma dropWhile_none: "\<forall>c\<in>set s. \<not> P c \<Longrightarrow> dropWhile P s = s"
  by (cases s) simp_all

lemma strip_no_space: "\<forall>c\<in>set s. \<not> is_space c \<Longrightarrow> strip s = s"
  by (simp add: strip_def dropWhile_none)

lemma set_join: "set (join sep xs) \<subseteq> set sep \<union> \<Union> (set ` set xs)"
  by (induction sep xs rule: join.induct) auto

lemma find_filter: "find P xs = (case filter P xs of [] \<Rightarrow> None | x # _ \<Rightarrow> Some x)"
  by (induction xs) auto

lemma is_space_dash: "\<not> is_space (CHR ''-'')"
  by (simp add: is_space_def)


lemma join_no_space:
  assumes "\<forall>g\<in>set segs. \<forall>c\<in>set g. c \<noteq> CHR ''-'' \<and> \<not> is_space c"
  shows "\<forall>c\<in>set (join ''-'' segs). \<not> is_space c"
proof
  fix c assume "c \<in> set (join ''-'' segs)"
  then have "c \<in> set ''-'' \<union> \<Union> (set ` set segs)" using set_join by blast
  then show "\<not> is_space c" using assms is_space_dash by auto
qed

lemma app_id_list_join:
  assumes "segs \<noteq> []"
    and "\<forall>g\<in>set segs. \<forall>c\<in>set g. c \<noteq> CHR ''-'' \<and> \<not> is_space c"
  shows "app_id_list (join ''-'' segs) = filter isdecimal segs"
proof -
  have "strip (join ''-'' segs) = join ''-'' segs"
    using join_no_space [OF assms(2)] by (rule strip_no_space)
  moreover have "\<forall>g\<in>set segs. CHR ''-'' \<notin> set g" using assms(2) by blast
  then have "split (CHR ''-'') (join ''-'' segs) = segs"
    using assms(1) split_join by blast
  ultimately show ?thesis
    by (simp add: app_id_list_def)
qed


text \<open>
  Claim C4. A token is a sequence of segments joined by \<open>-\<close>. The identifier the run
  goes on with is the first segment that is a non-empty run of decimal digits
  (\<open>"123-456"\<close> gives \<open>"123"\<close>); when no segment is one (\<open>"abc"\<close>) the token is
  rejected: \<open>app_id_list[0]\<close> raises \<open>IndexError\<close> and nothing has been done.
\<close>

theorem normalization_first_decimal_segment:
  assumes "segs \<noteq> []"
    and "\<forall>g\<in>set segs. \<forall>c\<in>set g. c \<noteq> CHR ''-'' \<and> \<not> is_space c"
  shows "download_and_process E (join ''-'' segs) game_name s =
     (case find isdecimal segs of
        None \<Rightarrow> (Inl IndexError, s)
      | Some ident \<Rightarrow>
          seq (makedirs E (''['' @ ident @ '']'' @ game_name))
            (\<lambda>_. for_repo E ident (''['' @ ident @ '']'' @ game_name) repos) s)"
proof (cases "filter isdecimal segs")
  case Nil
  then have "find isdecimal segs = None" by (simp add: find_filter)
  moreover have "download_and_process E (join ''-'' segs) game_name s = (Inl IndexError, s)"
    unfolding download_and_process_def app_id_list_join [OF assms] Nil
    by (simp add: raise_def)
  ultimately show ?thesis by simp
next
  case (Cons ident more)
  then have "find isdecimal segs = Some ident" by (simp add: find_filter)
  moreover have "download_and_process E (join ''-'' segs) game_name s =
      seq (makedirs E (''['' @ ident @ '']'' @ game_name))
            (\<lambda>_. for_repo E ident (''['' @ ident @ '']'' @ game_name) repos) s"
    unfolding download_and_process_def app_id_list_join [OF assms] Cons
    by (simp add: Let_def)
  ultimately show ?thesis by simp
qed


theorem normalization_first_decimal_segment_witness:
  "(\<forall>E name s. download_and_process E ''123-456'' name s =
      seq (makedirs E (''[123]'' @ name)) (\<lambda>_. for_repo E ''123'' (''[123]'' @ name) repos) s)
   \<and> (\<forall>E name s. download_and_process E ''abc'' name s = (Inl IndexError, s))"
proof -
  have h1: "\<forall>g\<in>set [''123'', ''456'']. \<forall>c\<in>set g. c \<noteq> CHR ''-'' \<and> \<not> is_space c"
    by (simp add: is_space_def)
  have h2: "\<forall>g\<in>set [''abc'']. \<forall>c\<in>set g. c \<noteq> CHR ''-'' \<and> \<not> is_space c"
    by (simp add: is_space_def)
  have f1: "isdecimal ''123''"
    by (simp add: isdecimal_def is_decimal_char_def)
  have f2: "\<not> isdecimal ''abc''"
    by (simp add: isdecimal_def is_decimal_char_def)
  have a: "download_and_process E ''123-456'' name s =
      seq (makedirs E (''[123]'' @ name)) (\<lambda>_. for_repo E ''123'' (''[123]'' @ name) repos) s"
    for E name s
    using normalization_first_decimal_segment [OF _ h1, of E name s] by (simp add: f1)
  have b: "download_and_process E ''abc'' name s = (Inl IndexError, s)" for E name s
    using normalization_first_decimal_segment [OF _ h2, of E name s] by (simp add: f2)
  show ?thesis using a b by blast
qed

section \<open>Binding manifests to a depot\<close>

lemma manifest_id_of_name:
  "manifest_id d (d @ ''_'' @ tok @ ''.manifest'') = tok"
proof -
  have "nat (int (length d) + 1) = Suc (length d)" by simp
  then show ?thesis by (simp add: manifest_id_def py_slice_def Let_def)
qed

lemma suffix_past_sep:
  "suffix xs (ys @ c # zs) \<Longrightarrow> c \<notin> set xs \<Longrightarrow> suffix xs zs"
  by (induction ys) (auto simp: suffix_Cons)

lemma selected_iff:
  "prefix (d @ ''_'') f \<and> suffix ''.manifest'' f \<longleftrightarrow> (\<exists>tok. f = d @ ''_'' @ tok @ ''.manifest'')"
proof
  assume a: "prefix (d @ ''_'') f \<and> suffix ''.manifest'' f"
  then obtain r where r: "f = d @ CHR ''_'' # r" by (auto simp: prefix_def)
  with a have "suffix ''.manifest'' (d @ CHR ''_'' # r)" by simp
  then have "suffix ''.manifest'' r" by (rule suffix_past_sep) simp
  then obtain tok where "r = tok @ ''.manifest''" by (auto simp: suffix_def)
  with r show "\<exists>tok. f = d @ ''_'' @ tok @ ''.manifest''" by simp
next
  assume "\<exists>tok. f = d @ ''_'' @ tok @ ''.manifest''"
  then obtain tok where "f = (d @ ''_'') @ (tok @ ''.manifest'')" by auto
  then show "prefix (d @ ''_'') f \<and> suffix ''.manifest'' f"
    by (metis prefixI suffixI append.assoc)
qed


lemma manifest_files_append:
  "manifest_files d (xs @ ys) = manifest_files d xs @ manifest_files d ys"
  by (simp add: manifest_files_def)

text \<open>
  Claim C6. For a depot and a listing, the files bound are those named
  \<open><depot>_<token>.manifest\<close>, and each gives the token between the underscore after the
  depot id and the extension: such a file contributes exactly its token, any other file
  contributes nothing, and the bindings follow the listing order.
\<close>

theorem manifest_binder:
  "manifest_ids d (xs @ ys) = manifest_ids d xs @ manifest_ids d ys
   \<and> manifest_ids d [d @ ''_'' @ tok @ ''.manifest''] = [tok]
   \<and> ((\<nexists>tok. f = d @ ''_'' @ tok @ ''.manifest'') \<longrightarrow> manifest_ids d [f] = [])
   \<and> manifest_ids d [] = []"
proof -
  have sel: "prefix (d @ ''_'') (d @ ''_'' @ tok @ ''.manifest'')
             \<and> suffix ''.manifest'' (d @ ''_'' @ tok @ ''.manifest'')"
    using selected_iff by blast
  have "manifest_files d [d @ ''_'' @ tok @ ''.manifest''] = [d @ ''_'' @ tok @ ''.manifest'']"
    unfolding manifest_files_def using sel by simp
  then have one: "manifest_ids d [d @ ''_'' @ tok @ ''.manifest''] = [tok]"
    unfolding manifest_ids_def by (simp only: list.map manifest_id_of_name)
  have none: "manifest_ids d [f] = []" if "\<nexists>tok. f = d @ ''_'' @ tok @ ''.manifest''"
    using that selected_iff [of d f] by (simp add: manifest_ids_def manifest_files_def)
  show ?thesis
    using one none by (simp add: manifest_ids_def manifest_files_append manifest_files_def)
qed

theorem manifest_binder_witness:
  "map (Pair ''10'') (manifest_ids ''10'' [''10_111.manifest'', ''10_222.manifest'', ''20_333.manifest''])
     = [(''10'', ''111''), (''10'', ''222'')]"
proof -
  have n: "\<nexists>tok. ''20_333.manifest'' = ''10'' @ ''_'' @ tok @ ''.manifest''" by simp
  have a: "manifest_ids ''10'' [''10_111.manifest''] = [''111'']"
    using manifest_binder [of "''10''" "[]" "[]" "''111''"] by simp
  have b: "manifest_ids ''10'' [''10_222.manifest''] = [''222'']"
    using manifest_binder [of "''10''" "[]" "[]" "''222''"] by simp
  have c: "manifest_ids ''10'' [''20_333.manifest''] = []"
    using manifest_binder [of "''10''" "[]" "[]" _ "''20_333.manifest''"] n by blast
  have "manifest_ids ''10'' ([''10_111.manifest''] @ [''10_222.manifest''] @ [''20_333.manifest''])
        = [''111'', ''222'']"
    using manifest_binder [of "''10''" "[''10_111.manifest'']" "[''10_222.manifest''] @ [''20_333.manifest'']"]
      manifest_binder [of "''10''" "[''10_222.manifest'']" "[''20_333.manifest'']"] a b c
    by simp
  then show ?thesis by simp
qed

section \<open>The script text\<close>

lemma for_manifest_file_eq:
  "for_manifest_file d files acc =
     acc @ map (\<lambda>f. ''setManifestid('' @ d @ '','' @ dquote @ manifest_id d f @ dquote @ '',0)'') files"
  by (induction files arbitrary: acc) simp_all

lemma for_depot_eq:
  assumes "listdir s dir = Inr listing"
  shows "for_depot E s dir depot_info acc =
     Inr (acc @ concat (map (\<lambda>(d, k).
        (''addappid('' @ d @ '',1,'' @ dquote @ py_str E k @ dquote @ '')'') #
        map (\<lambda>m. ''setManifestid('' @ d @ '','' @ dquote @ m @ dquote @ '',0)'')
          (manifest_ids d listing)) depot_info))"
  using assms
proof (induction depot_info arbitrary: acc)
  case Nil
  then show ?case by simp
next
  case (Cons r rest)
  obtain d k where r: "r = (d, k)" by (cases r)
  show ?case
    unfolding r using Cons
    by (simp add: for_manifest_file_eq manifest_ids_def o_def)
qed

lemma py_str_PStr: "py_str E (PStr k) = k"
  by (simp add: py_str_def)

text \<open>
  Claim C7. With the listing of the destination directory at hand, the script is the
  line \<open>addappid(<identifier>)\<close>, then for each depot record in order its line
  \<open>addappid(<depot>,1,"<key>")\<close> followed by one line \<open>setManifestid(<depot>,"<token>",0)\<close>
  for each manifest of that depot in listing order, joined by line feeds and nothing else.
\<close>

theorem script_text:
  assumes "listdir s save_dir = Inr listing"
  shows "parse_vdf_to_lua E (map (\<lambda>(d, k). (d, PStr k)) records) appid save_dir s =
     Inr (join newline
       ((''addappid('' @ appid @ '')'') #
        concat (map (\<lambda>(d, k).
          (''addappid('' @ d @ '',1,'' @ dquote @ k @ dquote @ '')'') #
          map (\<lambda>m. ''setManifestid('' @ d @ '','' @ dquote @ m @ dquote @ '',0)'')
            (manifest_ids d listing)) records)))"
  unfolding parse_vdf_to_lua_def for_depot_eq [OF assms]
  by (simp add: map_concat comp_def case_prod_unfold py_str_PStr)

theorem script_text_witness:
  "\<forall>E. parse_vdf_to_lua E [(''10'', PStr ''AA'')] ''10'' ''[10]''
     \<lparr>trace = [], fs = (\<lambda>d. None)(''[10]'' \<mapsto> [(''10_111.manifest'', Binary ''m'')])\<rparr> =
   Inr (''addappid(10)'' @ newline @
        ''addappid(10,1,'' @ dquote @ ''AA'' @ dquote @ '')'' @ newline @
        ''setManifestid(10,'' @ dquote @ ''111'' @ dquote @ '',0)'')"
proof -
  have l: "listdir \<lparr>trace = [], fs = (\<lambda>d. None)(''[10]'' \<mapsto> [(''10_111.manifest'', Binary ''m'')])\<rparr>
             ''[10]'' = Inr [''10_111.manifest'']"
    by (simp add: listdir_def)
  have m: "manifest_ids ''10'' [''10_111.manifest''] = [''111'']"
    by (simp add: manifest_ids_def manifest_files_def manifest_id_def py_slice_def suffix_to_prefix)
  show ?thesis
    using script_text [OF l, of _ "[(''10'', ''AA'')]" "''10''"]
    by (simp add: m)
qed

section \<open>Fetching through the mirrors\<close>

lemma requests_snoc_Request: "requests (s\<lparr>trace := trace s @ [Request u]\<rparr>) = requests s @ [u]"
  by (simp add: requests_def)

lemma requests_snoc_other:
  "requests (s\<lparr>trace := trace s @ [Log l]\<rparr>) = requests s"
  "requests (s\<lparr>trace := trace s @ [MkDir d]\<rparr>) = requests s"
  "requests (s\<lparr>trace := trace s @ [Write d n]\<rparr>) = requests s"
  by (simp_all add: requests_def)

lemma try_url_fail:
  assumes "mirror_fails (network E (length (requests s)) u)"
  shows "\<exists>s1. try_url E path u s = (Inr None, s1) \<and> requests s1 = requests s @ [u]
           \<and> retries_used s1 = retries_used s \<and> fs s1 = fs s"
  using assms
  by (auto simp: try_url_def session_get_def mirror_fails_def seq_def emit_def ret_def
        requests_def retries_used_def split: sum.splits)

lemma try_url_hit:
  assumes "network E (length (requests s)) u = Inr r" "status r = 200" "read_body r = Inr b"
  shows "\<exists>s1. try_url E path u s = (Inr (Some b), s1) \<and> requests s1 = requests s @ [u]
           \<and> retries_used s1 = retries_used s \<and> fs s1 = fs s"
  using assms
  by (auto simp: try_url_def session_get_def requests_def retries_used_def)


lemma for_url_all_fail:
  assumes "\<forall>n u. mirror_fails (network E n u)"
  shows "\<exists>s1. for_url E path urls s = (Inr None, s1) \<and> requests s1 = requests s @ urls
           \<and> retries_used s1 = retries_used s \<and> fs s1 = fs s"
proof (induction urls arbitrary: s)
  case Nil
  then show ?case by (simp add: ret_def)
next
  case (Cons u urls)
  obtain s1 where s1: "try_url E path u s = (Inr None, s1)" "requests s1 = requests s @ [u]"
      "retries_used s1 = retries_used s" "fs s1 = fs s"
    using try_url_fail assms by blast
  obtain s2 where s2: "for_url E path urls s1 = (Inr None, s2)" "requests s2 = requests s1 @ urls"
      "retries_used s2 = retries_used s1" "fs s2 = fs s1"
    using Cons [of s1] by blast
  have "for_url E path (u # urls) s = (Inr None, s2)"
    by (simp add: seq_def s1(1) s2(1))
  then show ?case using s1 s2 by simp
qed

lemma for_url_hit:
  assumes "\<forall>i<length pre. mirror_fails (network E (length (requests s) + i) (pre ! i))"
    and "network E (length (requests s) + length pre) u = Inr r"
    and "status r = 200" and "read_body r = Inr b"
  shows "\<exists>s1. for_url E path (pre @ u # post) s = (Inr (Some b), s1)
           \<and> requests s1 = requests s @ pre @ [u]
           \<and> retries_used s1 = retries_used s \<and> fs s1 = fs s"
  using assms(1,2)
proof (induction pre arbitrary: s)
  case Nil
  then obtain s1 where s1: "try_url E path u s = (Inr (Some b), s1)" "requests s1 = requests s @ [u]"
      "retries_used s1 = retries_used s" "fs s1 = fs s"
    using try_url_hit [of E s u r b path] assms(3,4) by auto
  have "for_url E path ([] @ u # post) s = (Inr (Some b), s1)"
    by (simp add: seq_def s1(1) ret_def)
  then show ?case using s1 by simp
next
  case (Cons x pre)
  have "mirror_fails (network E (length (requests s)) x)"
    using Cons.prems(1) [rule_format, of 0] by simp
  then obtain s1 where s1: "try_url E path x s = (Inr None, s1)" "requests s1 = requests s @ [x]"
      "retries_used s1 = retries_used s" "fs s1 = fs s"
    using try_url_fail by blast
  have len: "length (requests s1) = Suc (length (requests s))" using s1(2) by simp
  have a: "\<forall>i<length pre. mirror_fails (network E (length (requests s1) + i) (pre ! i))"
  proof (intro allI impI)
    fix i assume "i < length pre"
    then show "mirror_fails (network E (length (requests s1) + i) (pre ! i))"
      using Cons.prems(1) [rule_format, of "Suc i"] len by simp
  qed
  have b: "network E (length (requests s1) + length pre) u = Inr r"
    using Cons.prems(2) len by simp
  obtain s2 where s2: "for_url E path (pre @ u # post) s1 = (Inr (Some b), s2)"
      "requests s2 = requests s1 @ pre @ [u]"
      "retries_used s2 = retries_used s1" "fs s2 = fs s1"
    using Cons.IH [OF a b] by blast
  have "for_url E path ((x # pre) @ u # post) s = (Inr (Some b), s2)"
    by (simp add: seq_def s1(1) s2(1))
  then show ?case using s1 s2 by simp
qed

lemma emit_retry_left:
  "emit (Log (RetryLeft n p)) s = (Inr (), s\<lparr>trace := trace s @ [Log (RetryLeft n p)]\<rparr>)"
  by (simp add: emit_def)

lemma while_retry_all_fail:
  assumes "\<forall>n u. mirror_fails (network E n u)"
  shows "\<exists>s1. while_retry E path urls retry s = (Inr None, s1)
           \<and> requests s1 = requests s @ concat (replicate retry urls)
           \<and> retries_used s1 = retries_used s + retry \<and> fs s1 = fs s"
proof (induction retry arbitrary: s)
  case 0
  then show ?case by (simp add: ret_def)
next
  case (Suc retry)
  obtain s1 where s1: "for_url E path urls s = (Inr None, s1)" "requests s1 = requests s @ urls"
      "retries_used s1 = retries_used s" "fs s1 = fs s"
    using for_url_all_fail [OF assms] by blast
  define s2 where "s2 = s1\<lparr>trace := trace s1 @ [Log (RetryLeft retry path)]\<rparr>"
  have s2: "requests s2 = requests s1" "retries_used s2 = Suc (retries_used s1)" "fs s2 = fs s1"
    by (simp_all add: s2_def requests_snoc_other retries_used_def)
  obtain s3 where s3: "while_retry E path urls retry s2 = (Inr None, s3)"
      "requests s3 = requests s2 @ concat (replicate retry urls)"
      "retries_used s3 = retries_used s2 + retry" "fs s3 = fs s2"
    using Suc [of s2] by blast
  have "while_retry E path urls (Suc retry) s = (Inr None, s3)"
    by (simp add: seq_def s1(1) emit_retry_left s3(1) flip: s2_def)
  then show ?case using s1 s2 s3 by simp
qed


lemma for_url_fail:
  assumes "\<forall>i<length urls. mirror_fails (network E (length (requests s) + i) (urls ! i))"
  shows "\<exists>s1. for_url E path urls s = (Inr None, s1) \<and> requests s1 = requests s @ urls
           \<and> retries_used s1 = retries_used s \<and> fs s1 = fs s"
  using assms
proof (induction urls arbitrary: s)
  case Nil
  then show ?case by (simp add: ret_def)
next
  case (Cons u urls)
  have "mirror_fails (network E (length (requests s)) u)"
    using Cons.prems [rule_format, of 0] by simp
  then obtain s1 where s1: "try_url E path u s = (Inr None, s1)" "requests s1 = requests s @ [u]"
      "retries_used s1 = retries_used s" "fs s1 = fs s"
    using try_url_fail by blast
  have len: "length (requests s1) = Suc (length (requests s))" using s1(2) by simp
  have a: "\<forall>i<length urls. mirror_fails (network E (length (requests s1) + i) (urls ! i))"
  proof (intro allI impI)
    fix i assume "i < length urls"
    then show "mirror_fails (network E (length (requests s1) + i) (urls ! i))"
      using Cons.prems [rule_format, of "Suc i"] len by simp
  qed
  obtain s2 where s2: "for_url E path urls s1 = (Inr None, s2)" "requests s2 = requests s1 @ urls"
      "retries_used s2 = retries_used s1" "fs s2 = fs s1"
    using Cons.IH [OF a] by blast
  have "for_url E path (u # urls) s = (Inr None, s2)"
    by (simp add: seq_def s1(1) s2(1))
  then show ?case using s1 s2 by simp
qed

lemma while_retry_hit:
  assumes "j < retry" and "k < length urls"
    and "\<forall>i < j * length urls + k.
           mirror_fails (network E (length (requests s) + i) (urls ! (i mod length urls)))"
    and "network E (length (requests s) + (j * length urls + k)) (urls ! k) = Inr r"
    and "status r = 200" and "read_body r = Inr b"
  shows "\<exists>s'. while_retry E path urls retry s = (Inr (Some b), s')
           \<and> requests s' = requests s @ concat (replicate j urls) @ take (Suc k) urls
           \<and> retries_used s' = retries_used s + j \<and> fs s' = fs s"
  using assms(1,3,4)
proof (induction j arbitrary: retry s)
  case 0
  then obtain m where m: "retry = Suc m" by (cases retry) auto
  have urls: "urls = take k urls @ urls ! k # drop (Suc k) urls"
    using assms(2) by (simp add: id_take_nth_drop)
  have a: "\<forall>i<length (take k urls).
             mirror_fails (network E (length (requests s) + i) (take k urls ! i))"
    using "0.prems"(2) assms(2) by simp
  have b: "network E (length (requests s) + length (take k urls)) (urls ! k) = Inr r"
    using "0.prems"(3) assms(2) by simp
  obtain s1 where s1:
      "for_url E path (take k urls @ urls ! k # drop (Suc k) urls) s = (Inr (Some b), s1)"
      "requests s1 = requests s @ take k urls @ [urls ! k]"
      "retries_used s1 = retries_used s" "fs s1 = fs s"
    using for_url_hit [OF a b assms(5,6)] by blast
  have f: "for_url E path urls s = (Inr (Some b), s1)" using s1(1) urls by simp
  have "while_retry E path urls retry s = (Inr (Some b), s1)"
    by (simp add: m seq_def f ret_def)
  moreover have "take (Suc k) urls = take k urls @ [urls ! k]"
    using assms(2) by (simp add: take_Suc_conv_app_nth)
  ultimately show ?case using s1 by simp
next
  case (Suc j)
  then obtain m where m: "retry = Suc m" "j < m" by (cases retry) auto
  let ?n = "length urls"
  have a: "\<forall>i<?n. mirror_fails (network E (length (requests s) + i) (urls ! i))"
  proof (intro allI impI)
    fix i assume i: "i < ?n"
    then have "i < Suc j * ?n + k" by simp
    then show "mirror_fails (network E (length (requests s) + i) (urls ! i))"
      using Suc.prems(2) i by fastforce
  qed
  obtain s1 where s1: "for_url E path urls s = (Inr None, s1)" "requests s1 = requests s @ urls"
      "retries_used s1 = retries_used s" "fs s1 = fs s"
    using for_url_fail [OF a] by blast
  define s2 where "s2 = s1\<lparr>trace := trace s1 @ [Log (RetryLeft m path)]\<rparr>"
  have s2: "requests s2 = requests s1" "retries_used s2 = Suc (retries_used s1)" "fs s2 = fs s1"
    by (simp_all add: s2_def requests_snoc_other retries_used_def)
  have len: "length (requests s2) = length (requests s) + ?n" using s1(2) s2(1) by simp
  have c: "\<forall>i < j * ?n + k.
             mirror_fails (network E (length (requests s2) + i) (urls ! (i mod ?n)))"
  proof (intro allI impI)
    fix i assume i: "i < j * ?n + k"
    then have "?n + i < Suc j * ?n + k" by simp
    then have "mirror_fails (network E (length (requests s) + (?n + i)) (urls ! ((?n + i) mod ?n)))"
      using Suc.prems(2) by blast
    then show "mirror_fails (network E (length (requests s2) + i) (urls ! (i mod ?n)))"
      by (simp add: len add.assoc)
  qed
  have d: "network E (length (requests s2) + (j * ?n + k)) (urls ! k) = Inr r"
    using Suc.prems(3) by (simp add: len add.assoc)
  obtain s3 where s3: "while_retry E path urls m s2 = (Inr (Some b), s3)"
      "requests s3 = requests s2 @ concat (replicate j urls) @ take (Suc k) urls"
      "retries_used s3 = retries_used s2 + j" "fs s3 = fs s2"
    using Suc.IH [OF m(2) c d] by blast
  have "while_retry E path urls retry s = (Inr (Some b), s3)"
    by (simp add: m(1) seq_def s1(1) emit_retry_left s3(1) flip: s2_def)
  then show ?case using s1 s2 s3 by simp
qed


lemma length_url_list: "length (url_list sha path repo) = 5"
  by (simp add: url_list_def)

text \<open>
  Claim C2. When every mirror fails on every attempt (a status other than 200 or a
  transport error), \<open>get\<close> makes exactly three full passes over the mirror list in order,
  uses up the three units of the retry budget and returns \<open>None\<close>; no exception leaves it.
\<close>

theorem all_mirrors_fail:
  assumes "\<forall>n u. mirror_fails (network E n u)"
  shows "\<exists>s'. get E sha path repo s = (Inr None, s')
           \<and> requests s' = requests s @ url_list sha path repo @ url_list sha path repo
                @ url_list sha path repo
           \<and> retries_used s' = retries_used s + 3 \<and> fs s' = fs s"
proof -
  obtain s1 where s1: "while_retry E path (url_list sha path repo) 3 s = (Inr None, s1)"
      "requests s1 = requests s @ concat (replicate 3 (url_list sha path repo))"
      "retries_used s1 = retries_used s + 3" "fs s1 = fs s"
    using while_retry_all_fail [OF assms] by blast
  define s2 where "s2 = s1\<lparr>trace := trace s1 @ [Log (RetryExceeded path)]\<rparr>"
  have s2: "requests s2 = requests s1" "retries_used s2 = retries_used s1" "fs s2 = fs s1"
    by (simp_all add: s2_def requests_snoc_other retries_used_def)
  have "get E sha path repo s = (Inr None, s2)"
    by (simp add: get_def seq_def s1(1) emit_def ret_def s2_def)
  moreover have "concat (replicate 3 (url_list sha path repo)) =
      url_list sha path repo @ url_list sha path repo @ url_list sha path repo"
    by (simp add: numeral_3_eq_3)
  ultimately show ?thesis using s1 s2 by simp
qed

theorem all_mirrors_fail_witness:
  "\<exists>s'. get env_down ''sha'' ''10_1.manifest'' ''o/r'' state0 = (Inr None, s')
     \<and> requests s' = requests state0 @ url_list ''sha'' ''10_1.manifest'' ''o/r''
          @ url_list ''sha'' ''10_1.manifest'' ''o/r'' @ url_list ''sha'' ''10_1.manifest'' ''o/r''
     \<and> retries_used s' = retries_used state0 + 3 \<and> fs s' = fs state0"
proof -
  have "\<forall>n u. mirror_fails (network env_down n u)"
    by (simp add: env_down_def mirror_fails_def status_response_def)
  then show ?thesis by (rule all_mirrors_fail)
qed

text \<open>
  Claim C3. When, after \<open>j\<close> full passes in which every mirror failed (\<open>j\<close> below the retry
  budget of 3), the mirrors before the \<open>k\<close>-th fail again and the \<open>k\<close>-th answers 200 and
  its body is read, \<open>get\<close> returns that body at once: the requests made are the \<open>j\<close> full
  passes and then the mirrors up to the \<open>k\<close>-th, none after it, and the retry budget used
  is \<open>j\<close>, one unit per full pass and none for a mirror that failed.
\<close>

theorem first_success_wins:
  assumes "j < 3" and "k < length (url_list sha path repo)"
    and "\<forall>i < j * length (url_list sha path repo) + k.
           mirror_fails (network E (length (requests s) + i)
             (url_list sha path repo ! (i mod length (url_list sha path repo))))"
    and "network E (length (requests s) + (j * length (url_list sha path repo) + k))
           (url_list sha path repo ! k) = Inr r"
    and "status r = 200" and "read_body r = Inr b"
  shows "\<exists>s'. get E sha path repo s = (Inr (Some b), s')
           \<and> requests s' = requests s @ concat (replicate j (url_list sha path repo))
                @ take (Suc k) (url_list sha path repo)
           \<and> retries_used s' = retries_used s + j \<and> fs s' = fs s"
proof -
  obtain s1 where s1: "while_retry E path (url_list sha path repo) 3 s = (Inr (Some b), s1)"
      "requests s1 = requests s @ concat (replicate j (url_list sha path repo))
         @ take (Suc k) (url_list sha path repo)"
      "retries_used s1 = retries_used s + j" "fs s1 = fs s"
    using while_retry_hit [OF assms] by blast
  have "get E sha path repo s = (Inr (Some b), s1)"
    by (simp add: get_def seq_def s1(1) ret_def)
  then show ?thesis using s1 by simp
qed

theorem first_success_wins_witness:
  "\<exists>s'. get env_second ''sha'' ''Key.vdf'' ''o/r'' state0 = (Inr (Some ''data''), s')
     \<and> requests s' = [''https://jsdelivr.pai233.top/gh/o/r@sha/Key.vdf'',
                      ''https://cdn.jsdmirror.com/gh/o/r@sha/Key.vdf'']
     \<and> retries_used s' = 0 \<and> fs s' = fs state0"
proof -
  have r0: "requests state0 = []" by (simp add: requests_def state0_def)
  have u0: "retries_used state0 = 0" by (simp add: retries_used_def state0_def)
  have a: "\<forall>i < 0 * length (url_list ''sha'' ''Key.vdf'' ''o/r'') + 1.
           mirror_fails (network env_second (length (requests state0) + i)
             (url_list ''sha'' ''Key.vdf'' ''o/r'' ! (i mod length (url_list ''sha'' ''Key.vdf'' ''o/r''))))"
    by (simp add: r0 env_second_def mirror_fails_def status_response_def)
  have b: "network env_second (length (requests state0) + (0 * length (url_list ''sha'' ''Key.vdf'' ''o/r'') + 1))
           (url_list ''sha'' ''Key.vdf'' ''o/r'' ! 1) = Inr (status_response 200 ''data'')"
    by (simp add: r0 env_second_def)
  have "\<exists>s'. get env_second ''sha'' ''Key.vdf'' ''o/r'' state0 = (Inr (Some ''data''), s')
           \<and> requests s' = requests state0 @ concat (replicate 0 (url_list ''sha'' ''Key.vdf'' ''o/r''))
                @ take (Suc 1) (url_list ''sha'' ''Key.vdf'' ''o/r'')
           \<and> retries_used s' = retries_used state0 + 0 \<and> fs s' = fs state0"
    by (rule first_success_wins [OF _ _ a b]) (simp_all add: length_url_list status_response_def)
  then show ?thesis
    by (simp add: r0 u0 url_list_def)
qed

section \<open>Parsing the key file\<close>

text \<open>
  Claim C5. A parsed key file whose \<open>depots\<close> section maps \<open>10\<close> to an object with
  \<open>DecryptionKey\<close> \<open>AA\<close> and \<open>20\<close> to one with \<open>BB\<close> gives the two records in that order;
  a parsed key file with no \<open>depots\<close> section gives the \<open>KeyError\<close> and no records.
\<close>

theorem key_file_parse:
  assumes "vdf_loads E content = Inr (PDict doc)"
  shows "(map_of doc ''depots'' = Some (PDict [(''10'', PDict o1), (''20'', PDict o2)])
          \<and> map_of o1 ''DecryptionKey'' = Some (PStr ''AA'')
          \<and> map_of o2 ''DecryptionKey'' = Some (PStr ''BB'')
          \<longrightarrow> parse_key_file E content = Inr [(''10'', PStr ''AA''), (''20'', PStr ''BB'')])
       \<and> (map_of doc ''depots'' = None
          \<longrightarrow> parse_key_file E content = Inl (KeyError ''depots''))"
  using assms by (simp add: parse_key_file_def)

theorem key_file_parse_witness:
  "parse_key_file (env_key ''good'') ''good'' = Inr [(''10'', PStr ''AA''), (''20'', PStr ''BB'')]
   \<and> parse_key_file (env_key ''kv'') ''kv'' = Inl (KeyError ''depots'')"
proof -
  have a: "vdf_loads (env_key ''good'') ''good'' =
      Inr (PDict [(''depots'', PDict [(''10'', PDict [(''DecryptionKey'', PStr ''AA'')]),
                                (''20'', PDict [(''DecryptionKey'', PStr ''BB'')])])])"
    by (simp add: env_key_def doc_two_depots_def)
  have b: "vdf_loads (env_key ''kv'') ''kv'' = Inr (PDict [(''other'', PDict [])])"
    by (simp add: env_key_def doc_no_depots_def)
  show ?thesis
    using key_file_parse [OF a, of "[(''DecryptionKey'', PStr ''AA'')]" "[(''DecryptionKey'', PStr ''BB'')]"]
      key_file_parse [OF b]
    by simp
qed

section \<open>Every program of the run is steady\<close>

lemma grows_refl: "grows s s"
  by (simp add: grows_def)

lemma grows_trans: "grows s s1 \<Longrightarrow> grows s1 s2 \<Longrightarrow> grows s s2"
  unfolding grows_def by (meson prefix_order.trans)

lemma grows_snoc: "grows s (s\<lparr>trace := trace s @ evs\<rparr>)"
  by (simp add: grows_def path_exists_def)

lemma steady_ret: "steady (ret x)"
  by (simp add: steady_def ret_def grows_refl)

lemma steady_raise: "steady (raise e)"
  by (simp add: steady_def raise_def grows_refl)

lemma steady_lift: "steady (lift r)"
  by (simp add: steady_def lift_def grows_refl)

lemma steady_emit: "steady (emit ev)"
  by (simp add: steady_def emit_def grows_snoc)

lemma steady_session_get: "steady (session_get E url)"
  by (simp add: steady_def session_get_def grows_snoc)

lemma steady_makedirs: "steady (makedirs E d)"
  by (auto simp: steady_def makedirs_def grows_def path_exists_def split: option.splits)

lemma steady_write_file: "steady (write_file d name data)"
  by (auto simp: steady_def write_file_def grows_def path_exists_def dom_update
        split: option.splits)

lemma steady_seq:
  assumes "steady m" and "\<And>x. steady (f x)"
  shows "steady (seq m f)"
  unfolding steady_def
proof
  fix s
  obtain r s1 where m: "m s = (r, s1)" by (cases "m s")
  have g1: "grows s s1" using assms(1) m unfolding steady_def by (metis snd_conv)
  show "grows s (snd (seq m f s))"
  proof (cases r)
    case (Inl e)
    then show ?thesis using m g1 by (simp add: seq_def)
  next
    case (Inr x)
    have "grows s1 (snd (f x s1))" using assms(2) unfolding steady_def by blast
    then show ?thesis using m Inr g1 by (simp add: seq_def grows_trans)
  qed
qed

lemma steady_fun: "(\<And>s. grows s (snd (m s))) \<Longrightarrow> steady m"
  by (simp add: steady_def)

lemma steadyD: "steady m \<Longrightarrow> m s = (r, s') \<Longrightarrow> grows s s'"
  unfolding steady_def by (metis snd_conv)

lemma steady_try_url: "steady (try_url E path url)"
proof (rule steady_fun)
  fix s
  obtain r s1 where g: "session_get E url s = (r, s1)" by (cases "session_get E url s")
  have g1: "grows s s1" using steadyD [OF steady_session_get g] .
  have e: "grows s1 (snd (seq (emit (Log l)) (\<lambda>_. ret (None :: bytes option)) s1))" for l
  proof -
    have "steady (seq (emit (Log l)) (\<lambda>_. ret (None :: bytes option)))"
      by (intro steady_seq steady_emit steady_ret)
    then show ?thesis by (simp add: steady_def)
  qed
  show "grows s (snd (try_url E path url s))"
    unfolding try_url_def g
    using g1 e by (auto split: sum.splits intro: grows_trans)
qed

lemma steady_for_url: "steady (for_url E path urls)"
proof (induction urls)
  case Nil
  then show ?case by (simp add: steady_ret)
next
  case (Cons u urls)
  show ?case
    unfolding for_url.simps
    by (rule steady_seq [OF steady_try_url]) (simp add: steady_ret Cons split: option.splits)
qed

lemma steady_while_retry: "steady (while_retry E path urls retry)"
proof (induction retry)
  case 0
  then show ?case by (simp add: steady_ret)
next
  case (Suc retry)
  show ?case
    unfolding while_retry.simps
    by (rule steady_seq [OF steady_for_url])
       (auto simp: steady_ret Suc split: option.splits intro!: steady_seq steady_emit)
qed

lemma steady_get: "steady (get E sha path repo)"
  unfolding get_def
  by (rule steady_seq [OF steady_while_retry])
     (auto simp: steady_ret split: option.splits intro!: steady_seq steady_emit)


lemma steady_if: "(c \<Longrightarrow> steady m) \<Longrightarrow> (\<not> c \<Longrightarrow> steady n) \<Longrightarrow> steady (if c then m else n)"
  by simp

lemma steady_get_manifest_try: "steady (get_manifest_try E sha path save_dir repo)"
proof (rule steady_fun)
  fix s
  have a: "steady (seq (emit (Log (ManifestExists path)))
             (\<lambda>_. ret ([] :: (string \<times> pyval) list)))"
    by (intro steady_seq steady_emit steady_ret)
  have b: "steady (seq (get E sha path repo)
            (\<lambda>content. case content of
               None \<Rightarrow> ret ([] :: (string \<times> pyval) list)
             | Some b \<Rightarrow>
                 if b \<noteq> [] then
                   seq (emit (Log (ManifestDownloaded path)))
                     (\<lambda>_. seq (write_file save_dir path (Binary b)) (\<lambda>_. ret []))
                 else ret []))"
    by (rule steady_seq [OF steady_get])
       (auto split: option.splits intro!: steady_seq steady_emit steady_ret steady_write_file)
  have c: "steady (seq (get E sha path repo)
         (\<lambda>content. case content of
            None \<Rightarrow> ret []
          | Some b \<Rightarrow>
              if b \<noteq> [] then
                seq (emit (Log (KeyDownloaded path))) (\<lambda>_. lift (parse_key_file E b))
              else ret []))"
    by (rule steady_seq [OF steady_get])
       (auto split: option.splits intro!: steady_seq steady_emit steady_ret steady_lift)
  show "grows s (snd (get_manifest_try E sha path save_dir repo s))"
    unfolding get_manifest_try_def
    using a b c steady_ret [of "[] :: (string \<times> pyval) list"]
    by (simp add: steady_def)
qed

lemma steady_get_manifest: "steady (get_manifest E sha path save_dir repo)"
proof (rule steady_fun)
  fix s
  obtain r s1 where g: "get_manifest_try E sha path save_dir repo s = (r, s1)"
    by (cases "get_manifest_try E sha path save_dir repo s")
  have g1: "grows s s1" using steadyD [OF steady_get_manifest_try g] .
  have e: "grows s1 (snd (seq (emit (Log l)) (\<lambda>_. raise x :: (string \<times> pyval) list prog) s1))"
    for l x
  proof -
    have "steady (seq (emit (Log l)) (\<lambda>_. raise x :: (string \<times> pyval) list prog))"
      by (intro steady_seq steady_emit steady_raise)
    then show ?thesis by (simp add: steady_def)
  qed
  show "grows s (snd (get_manifest E sha path save_dir repo s))"
    unfolding get_manifest_def g
    using g1 e by (auto split: sum.splits intro: grows_trans)
qed

lemma steady_vdf_loop: "steady (vdf_loop E sha save_dir repo items)"
proof (induction items)
  case Nil
  then show ?case by (simp add: steady_ret)
next
  case (Cons item items)
  show ?case
    unfolding vdf_loop.simps
    by (rule steady_seq [OF steady_lift])
       (auto split: pyval.splits intro!: steady_seq steady_get_manifest steady_ret Cons)
qed

lemma steady_manifest_loop: "steady (manifest_loop E sha save_dir repo collected items)"
proof (induction items arbitrary: collected)
  case Nil
  then show ?case by (simp add: steady_ret)
next
  case (Cons item items)
  show ?case
    unfolding manifest_loop.simps
    by (rule steady_seq [OF steady_lift])
       (auto split: pyval.splits intro!: steady_seq steady_get_manifest steady_raise Cons)
qed

lemma steady_process_tree: "steady (process_tree E app_id sha date save_dir repo r2_json)"
  unfolding process_tree_def
  by (intro steady_seq steady_lift steady_if steady_vdf_loop steady_manifest_loop steady_emit
        steady_ret)

lemma steady_session_get_val: "steady (session_get_val E u)"
  by (simp add: session_get_val_def steady_session_get steady_raise split: pyval.splits)

lemma steady_try_repo: "steady (try_repo E app_id save_dir repo)"
  unfolding try_repo_def
  by (intro steady_seq steady_lift steady_if steady_emit steady_session_get
        steady_session_get_val steady_process_tree steady_ret)

lemma steady_for_repo: "steady (for_repo E app_id save_dir rs)"
proof (induction rs)
  case Nil
  then show ?case by (auto intro!: steady_seq steady_emit steady_ret)
next
  case (Cons r rs)
  show ?case
    unfolding for_repo.simps
    by (rule steady_seq [OF steady_try_repo])
       (auto split: option.splits intro!: steady_seq steady_emit steady_ret Cons)
qed

lemma steady_download_and_process: "steady (download_and_process E app_id game_name)"
  unfolding download_and_process_def
  by (auto simp: Let_def split: list.splits
        intro!: steady_raise steady_seq steady_makedirs steady_for_repo)

section \<open>The destination directory\<close>


lemma main_no_records:
  "download_and_process E app_id game_name s = (Inr ([], d), s') \<Longrightarrow>
   main E app_id game_name s = (Inr (), s')"
  by (simp add: main_def seq_def ret_def)


lemma download_and_process_refused:
  assumes "app_id_list app_id = ident # others"
    and "makedirs_error E (''['' @ ident @ '']'' @ game_name) = Some e"
  shows "download_and_process E app_id game_name s = (Inl e, s)"
proof -
  define dir where "dir = ''['' @ ident @ '']'' @ game_name"
  have mk: "makedirs E dir s = (Inl e, s)" using assms(2) by (simp add: makedirs_def dir_def)
  have "download_and_process E app_id game_name s =
          seq (makedirs E dir) (\<lambda>_. for_repo E ident dir repos) s"
    by (simp add: download_and_process_def assms(1) Let_def dir_def)
  then show ?thesis by (simp add: seq_def mk)
qed






section \<open>Falling through the repositories\<close>

lemma requests_prefix: "grows s s' \<Longrightarrow> prefix (requests s) (requests s')"
  by (auto simp: grows_def prefix_def requests_def)

lemma process_tree_Some:
  "process_tree E app_id sha date save_dir repo r2_json s = (Inr (Some c), s') \<Longrightarrow> c \<noteq> []"
  by (auto simp: process_tree_def seq_def lift_def ret_def emit_def
        split: sum.splits if_splits prod.splits)

lemma seq_resultE:
  assumes "seq m f s = (Inr y, s')"
  obtains x s1 where "f x s1 = (Inr y, s')"
  using assms by (auto simp: seq_def split: prod.splits sum.splits)

lemma try_repo_Some:
  assumes "try_repo E app_id save_dir repo s = (Inr (Some c), s')"
  shows "c \<noteq> []"
  using assms unfolding try_repo_def
  apply (elim seq_resultE)
  apply (simp split: if_splits add: ret_def)
  apply (elim seq_resultE)
  apply (erule process_tree_Some)
  done


lemma seq_emit: "seq (emit ev) f s = f () (s\<lparr>trace := trace s @ [ev]\<rparr>)"
  by (simp add: seq_def emit_def)

lemma seq_grows:
  assumes "\<And>x. steady (f x)"
  shows "grows (snd (m s)) (snd (seq m f s))"
proof -
  obtain r s1 where m: "m s = (r, s1)" by (cases "m s")
  show ?thesis
  proof (cases r)
    case (Inl e)
    then show ?thesis using m by (simp add: seq_def grows_refl)
  next
    case (Inr x)
    have "grows s1 (snd (f x s1))" using assms unfolding steady_def by blast
    then show ?thesis using m Inr by (simp add: seq_def)
  qed
qed

lemma try_repo_requests:
  "\<exists>others. requests (snd (try_repo E app_id save_dir repo s)) =
      requests s @ branch_url repo app_id # others"
proof -
  define s1 where "s1 = s\<lparr>trace := trace s @ [Log (SearchRepo repo)]\<rparr>"
  define s2 where "s2 = snd (session_get E (branch_url repo app_id) s1)"
  have r2: "requests s2 = requests s @ [branch_url repo app_id]"
    by (simp add: s2_def s1_def session_get_def requests_def)
  have "grows s2 (snd (try_repo E app_id save_dir repo s))"
    unfolding try_repo_def seq_emit s2_def s1_def
    by (rule seq_grows)
       (intro steady_seq steady_lift steady_if steady_emit steady_session_get
          steady_session_get_val steady_process_tree steady_ret)
  then have "prefix (requests s2) (requests (snd (try_repo E app_id save_dir repo s)))"
    by (rule requests_prefix)
  then show ?thesis unfolding r2 prefix_def by auto
qed

lemma for_repo_next:
  assumes "try_repo E app_id save_dir repo s = (Inr None, s1)"
  shows "\<exists>others. requests (snd (for_repo E app_id save_dir (repo # next_repo # rest) s)) =
           requests s1 @ branch_url next_repo app_id # others"
proof -
  define s2 where "s2 = s1\<lparr>trace := trace s1 @ [Log (NotInRepo repo)]\<rparr>"
  have r2: "requests s2 = requests s1" by (simp add: s2_def requests_def)
  have "for_repo E app_id save_dir (repo # next_repo # rest) s =
        for_repo E app_id save_dir (next_repo # rest) s2"
    by (simp add: seq_def assms emit_def s2_def)
  also have "\<dots> = seq (try_repo E app_id save_dir next_repo)
       (\<lambda>r. case r of
          Some collected_depots \<Rightarrow> ret (collected_depots, save_dir)
        | None \<Rightarrow> seq (emit (Log (NotInRepo next_repo)))
                    (\<lambda>_. for_repo E app_id save_dir rest)) s2"
    by simp
  finally have eq: "for_repo E app_id save_dir (repo # next_repo # rest) s =
      seq (try_repo E app_id save_dir next_repo)
       (\<lambda>r. case r of
          Some collected_depots \<Rightarrow> ret (collected_depots, save_dir)
        | None \<Rightarrow> seq (emit (Log (NotInRepo next_repo)))
                    (\<lambda>_. for_repo E app_id save_dir rest)) s2" .
  have "grows (snd (try_repo E app_id save_dir next_repo s2))
          (snd (for_repo E app_id save_dir (repo # next_repo # rest) s))"
    unfolding eq
    by (rule seq_grows)
       (auto split: option.splits intro!: steady_seq steady_emit steady_ret steady_for_repo)
  then have "prefix (requests (snd (try_repo E app_id save_dir next_repo s2)))
          (requests (snd (for_repo E app_id save_dir (repo # next_repo # rest) s)))"
    by (rule requests_prefix)
  moreover obtain others where
    "requests (snd (try_repo E app_id save_dir next_repo s2)) =
       requests s2 @ branch_url next_repo app_id # others"
    using try_repo_requests by blast
  ultimately show ?thesis unfolding r2 prefix_def by auto
qed

lemma for_repo_empty:
  assumes "for_repo E app_id save_dir rs s = (Inr ([], d), s')"
  shows "subseq (map (\<lambda>r. branch_url r app_id) rs) (drop (length (requests s)) (requests s'))
       \<and> (\<exists>evs. trace s' = evs @ [Log (DownloadFailed app_id)])"
  using assms
proof (induction rs arbitrary: s)
  case Nil
  then show ?case by (auto simp: seq_def emit_def ret_def)
next
  case (Cons r rs)
  obtain x s1 where t: "try_repo E app_id save_dir r s = (x, s1)"
    by (cases "try_repo E app_id save_dir r s")
  show ?case
  proof (cases x)
    case (Inl e)
    then show ?thesis using Cons.prems t by (simp add: seq_def)
  next
    case (Inr y)
    show ?thesis
    proof (cases y)
      case (Some c)
      then have "c \<noteq> []" using t Inr try_repo_Some by blast
      then show ?thesis using Cons.prems t Inr Some by (simp add: seq_def ret_def)
    next
      case None
      define s2 where "s2 = s1\<lparr>trace := trace s1 @ [Log (NotInRepo r)]\<rparr>"
      have r2: "requests s2 = requests s1" by (simp add: s2_def requests_def)
      have run: "for_repo E app_id save_dir rs s2 = (Inr ([], d), s')"
        using Cons.prems t Inr None by (simp add: seq_def emit_def s2_def)
      have ih: "subseq (map (\<lambda>r. branch_url r app_id) rs)
                  (drop (length (requests s2)) (requests s'))"
        and tr: "\<exists>evs. trace s' = evs @ [Log (DownloadFailed app_id)]"
        using Cons.IH [OF run] by blast+
      obtain others where o: "requests s1 = requests s @ branch_url r app_id # others"
        using try_repo_requests [of E app_id save_dir r s] t by auto
      have "grows s2 s'" using steadyD [OF steady_for_repo run] .
      then obtain new where new: "requests s' = requests s2 @ new"
        using requests_prefix unfolding prefix_def by blast
      have "drop (length (requests s)) (requests s') = branch_url r app_id # others @ new"
        by (simp add: new r2 o)
      moreover have "drop (length (requests s2)) (requests s') = new" by (simp add: new)
      ultimately have "subseq (map (\<lambda>r. branch_url r app_id) (r # rs))
          (drop (length (requests s)) (requests s'))"
        using ih by (simp add: list_emb_append2)
      then show ?thesis using tr by blast
    qed
  qed
qed


lemma for_repo_none:
  assumes "\<forall>repo\<in>set rs. \<forall>s. fst (try_repo E app_id save_dir repo s) = Inr None"
  shows "fst (for_repo E app_id save_dir rs s) = Inr ([], save_dir)"
  using assms
proof (induction rs arbitrary: s)
  case Nil
  then show ?case by (simp add: seq_def emit_def ret_def)
next
  case (Cons r rs)
  have "fst (try_repo E app_id save_dir r s) = Inr None" using Cons.prems by simp
  then obtain s1 where t: "try_repo E app_id save_dir r s = (Inr None, s1)"
    by (metis prod.collapse)
  have "fst (for_repo E app_id save_dir rs (s1\<lparr>trace := trace s1 @ [Log (NotInRepo r)]\<rparr>))
          = Inr ([], save_dir)"
    using Cons by simp
  then show ?case by (simp add: seq_def t emit_def)
qed

text \<open>
  Claim C8. A source that yields no records (no branch, no tree, or a tree that gives no
  depot record) does not end the search: the branch of the next repository is requested
  next. A run that returns no records has requested the branch of every repository, in
  the fixed order, and its last act was to log that the download failed for the
  identifier; \<open>main\<close> then returns normally in that very state, so no script is written.
  And when every source yields nothing, that is how a run ends once the destination
  directory has been made: it returns the empty list and the destination directory.
\<close>

theorem source_fallthrough:
  "(try_repo E ident save_dir repo s = (Inr None, s1) \<longrightarrow>
      (\<exists>others. requests (snd (for_repo E ident save_dir (repo # next_repo # rest) s)) =
          requests s1 @ branch_url next_repo ident # others))
   \<and> (download_and_process E app_id game_name s = (Inr ([], d), s') \<longrightarrow>
        (\<exists>ident others. app_id_list app_id = ident # others
           \<and> subseq (map (\<lambda>r. branch_url r ident) repos)
                (drop (length (requests s)) (requests s'))
           \<and> (\<exists>evs. trace s' = evs @ [Log (DownloadFailed ident)]))
        \<and> main E app_id game_name s = (Inr (), s'))
   \<and> (app_id_list app_id = ident # others
        \<and> makedirs_error E (''['' @ ident @ '']'' @ game_name) = None
        \<and> (\<forall>repo\<in>set repos. \<forall>s. fst (try_repo E ident (''['' @ ident @ '']'' @ game_name) repo s)
              = Inr None)
        \<longrightarrow> fst (download_and_process E app_id game_name s) =
              Inr ([], ''['' @ ident @ '']'' @ game_name))"
proof (intro conjI impI)
  assume "try_repo E ident save_dir repo s = (Inr None, s1)"
  then show "\<exists>others. requests (snd (for_repo E ident save_dir (repo # next_repo # rest) s)) =
          requests s1 @ branch_url next_repo ident # others"
    by (rule for_repo_next)
next
  assume run: "download_and_process E app_id game_name s = (Inr ([], d), s')"
  show "main E app_id game_name s = (Inr (), s')" using run by (rule main_no_records)
  obtain i os where l: "app_id_list app_id = i # os"
    using run by (cases "app_id_list app_id") (auto simp: download_and_process_def raise_def)
  define dir where "dir = ''['' @ i @ '']'' @ game_name"
  define s0 where "s0 = s\<lparr>trace := trace s @ [MkDir dir],
      fs := (case fs s dir of None \<Rightarrow> (fs s)(dir \<mapsto> []) | Some es \<Rightarrow> fs s)\<rparr>"
  have ok: "makedirs_error E dir = None"
  proof (cases "makedirs_error E dir")
    case (Some x)
    then have "download_and_process E app_id game_name s = (Inl x, s)"
      using l download_and_process_refused by (simp add: dir_def)
    then show ?thesis using run by simp
  qed simp
  have mk: "makedirs E dir s = (Inr (), s0)" by (simp add: s0_def makedirs_def ok)
  have r0: "requests s0 = requests s" by (simp add: s0_def requests_def)
  have "download_and_process E app_id game_name s =
          seq (makedirs E dir) (\<lambda>_. for_repo E i dir repos) s"
    by (simp add: download_and_process_def l Let_def dir_def)
  then have "for_repo E i dir repos s0 = (Inr ([], d), s')"
    using run by (simp add: seq_def mk)
  then have "subseq (map (\<lambda>r. branch_url r i) repos) (drop (length (requests s0)) (requests s'))
       \<and> (\<exists>evs. trace s' = evs @ [Log (DownloadFailed i)])"
    by (rule for_repo_empty)
  then show "\<exists>ident others. app_id_list app_id = ident # others
           \<and> subseq (map (\<lambda>r. branch_url r ident) repos)
                (drop (length (requests s)) (requests s'))
           \<and> (\<exists>evs. trace s' = evs @ [Log (DownloadFailed ident)])"
    using l r0 by auto
next
  assume a: "app_id_list app_id = ident # others
        \<and> makedirs_error E (''['' @ ident @ '']'' @ game_name) = None
        \<and> (\<forall>repo\<in>set repos. \<forall>s. fst (try_repo E ident (''['' @ ident @ '']'' @ game_name) repo s)
              = Inr None)"
  define dir where "dir = ''['' @ ident @ '']'' @ game_name"
  have ok: "makedirs_error E dir = None" using a by (simp add: dir_def)
  have "download_and_process E app_id game_name s =
          seq (makedirs E dir) (\<lambda>_. for_repo E ident dir repos) s"
    using a by (simp add: download_and_process_def Let_def dir_def)
  then have "download_and_process E app_id game_name s =
          for_repo E ident dir repos (snd (makedirs E dir s))"
    by (simp add: seq_def makedirs_def ok)
  moreover have "fst (for_repo E ident dir repos (snd (makedirs E dir s))) = Inr ([], dir)"
    using a by (intro for_repo_none) (simp add: dir_def)
  ultimately show "fst (download_and_process E app_id game_name s) =
              Inr ([], ''['' @ ident @ '']'' @ game_name)"
    by (simp add: dir_def)
qed


lemma empty_tree_first_repo:
  "fst (try_repo env_empty_tree ''10'' ''[10]G'' ''SteamAutoCracks/ManifestHub'' state0) = Inr None"
  by code_simp

lemma empty_tree_run:
  "fst (download_and_process env_empty_tree ''10'' ''G'' state0) = Inr ([], ''[10]G'')"
  by code_simp

lemma not_found_try_repo:
  "fst (try_repo env_not_found app_id save_dir repo s) = Inr None"
  by (simp add: try_repo_def seq_def emit_def session_get_def env_not_found_def
        json_response_def not_found_doc_def lift_def ret_def)

theorem source_fallthrough_witness:
  "(\<exists>others. requests (snd (for_repo env_empty_tree ''10'' ''[10]G''
        [''SteamAutoCracks/ManifestHub'', ''ikun0014/ManifestHub''] state0)) =
      requests (snd (try_repo env_empty_tree ''10'' ''[10]G'' ''SteamAutoCracks/ManifestHub'' state0))
        @ branch_url ''ikun0014/ManifestHub'' ''10'' # others)
   \<and> main env_empty_tree ''10'' ''G'' state0 =
        (Inr (), snd (download_and_process env_empty_tree ''10'' ''G'' state0))
   \<and> (\<exists>ident others. app_id_list ''10'' = ident # others
         \<and> subseq (map (\<lambda>r. branch_url r ident) repos)
              (drop (length (requests state0))
                 (requests (snd (download_and_process env_empty_tree ''10'' ''G'' state0))))
         \<and> (\<exists>evs. trace (snd (download_and_process env_empty_tree ''10'' ''G'' state0)) =
               evs @ [Log (DownloadFailed ident)]))
   \<and> fst (download_and_process env_not_found ''10'' ''G'' state0) = Inr ([], ''[10]G'')"
proof -
  have a: "try_repo env_empty_tree ''10'' ''[10]G'' ''SteamAutoCracks/ManifestHub'' state0 =
      (Inr None, snd (try_repo env_empty_tree ''10'' ''[10]G'' ''SteamAutoCracks/ManifestHub'' state0))"
    using empty_tree_first_repo by (metis prod.collapse)
  have b: "download_and_process env_empty_tree ''10'' ''G'' state0 =
      (Inr ([], ''[10]G''), snd (download_and_process env_empty_tree ''10'' ''G'' state0))"
    using empty_tree_run by (metis prod.collapse)
  have c: "app_id_list ''10'' = ''10'' # []" by code_simp
  have d: "\<forall>repo\<in>set repos. \<forall>s. fst (try_repo env_not_found ''10'' (''['' @ ''10'' @ '']'' @ ''G'') repo s)
              = Inr None"
    using not_found_try_repo by blast
  have 1: "\<exists>others. requests (snd (for_repo env_empty_tree ''10'' ''[10]G''
        [''SteamAutoCracks/ManifestHub'', ''ikun0014/ManifestHub''] state0)) =
      requests (snd (try_repo env_empty_tree ''10'' ''[10]G'' ''SteamAutoCracks/ManifestHub'' state0))
        @ branch_url ''ikun0014/ManifestHub'' ''10'' # others"
    using source_fallthrough [where E = env_empty_tree and ident = "''10''"
        and save_dir = "''[10]G''" and repo = "''SteamAutoCracks/ManifestHub''" and s = state0
        and ?s1.0 = "snd (try_repo env_empty_tree ''10'' ''[10]G'' ''SteamAutoCracks/ManifestHub'' state0)"
        and next_repo = "''ikun0014/ManifestHub''" and rest = "[]"] a
    by blast
  have 2: "(\<exists>ident others. app_id_list ''10'' = ident # others
         \<and> subseq (map (\<lambda>r. branch_url r ident) repos)
              (drop (length (requests state0))
                 (requests (snd (download_and_process env_empty_tree ''10'' ''G'' state0))))
         \<and> (\<exists>evs. trace (snd (download_and_process env_empty_tree ''10'' ''G'' state0)) =
               evs @ [Log (DownloadFailed ident)]))
      \<and> main env_empty_tree ''10'' ''G'' state0 =
        (Inr (), snd (download_and_process env_empty_tree ''10'' ''G'' state0))"
    using source_fallthrough [where E = env_empty_tree and app_id = "''10''"
        and game_name = "''G''" and s = state0 and d = "''[10]G''"
        and s' = "snd (download_and_process env_empty_tree ''10'' ''G'' state0)"] b
    by blast
  have e: "makedirs_error env_not_found (''['' @ ''10'' @ '']'' @ ''G'') = None"
    by (simp add: env_not_found_def)
  have 3: "fst (download_and_process env_not_found ''10'' ''G'' state0) = Inr ([], ''[10]G'')"
    using source_fallthrough [where E = env_not_found and app_id = "''10''"
        and game_name = "''G''" and s = state0 and ident = "''10''" and others = "[]"] c d e
    by simp
  show ?thesis using 1 2 3 by blast
qed

section \<open>A key file that does not parse\<close>







section \<open>Running the manifest phase again\<close>















end
